theory Spec2Isabelle
  imports Main "HOL-Library.Sublist"
begin

section \<open>Data model (drizzle/schema.ts)\<close>

text \<open>
  JavaScript strings and MySQL \<open>varchar\<close> values are modelled as lists of Unicode code
  points: emptiness, equality, containment of an ASCII literal and the character count
  of a \<open>varchar(n)\<close> column are then what the source sees. Keys and counters (\<open>int\<close>
  columns, JavaScript numbers holding integers) are modelled as unbounded \<open>int\<close>; the
  ends of the column range play no part in what is proved here. The \<open>candidateId\<close> of
  a request is an \<open>int\<close> as well, which is what \<open>z.number().int()\<close> lets through.
  Timestamps are natural numbers read from the clock of the request.
\<close>

type_synonym str = "nat list"

text \<open>Table \<open>candidates\<close>: \<open>id\<close> (auto-increment primary key), \<open>name varchar(255)\<close>,
  \<open>votes int default 0\<close>, \<open>createdAt timestamp default now()\<close>.\<close>

record candidate =
  c_id :: int
  c_name :: str
  c_votes :: int
  c_createdAt :: nat

text \<open>Table \<open>votes\<close>: \<open>id\<close> (auto-increment primary key), \<open>candidateId\<close> (foreign key to
  \<open>candidates.id\<close>), \<open>voterIdentifier varchar(255)\<close> (no uniqueness constraint),
  \<open>createdAt timestamp default now()\<close>.\<close>

record vote =
  v_id :: int
  v_candidateId :: int
  v_voterIdentifier :: str
  v_createdAt :: nat

text \<open>
  The state a request runs against: the module variable \<open>_db\<close> of server/db.ts
  (\<open>conn\<close> is \<open>True\<close> when it holds a drizzle instance), the two tables with their
  auto-increment counters, and a ghost log \<open>queries\<close> of the statements sent to the
  store, used to state that something happens before any store access.
\<close>

datatype site =
  Q_getAllCandidates | Q_hasVoted | Q_insertVote | Q_selectCandidate
  | Q_updateCandidate | Q_initSelect | Q_initInsert

record world =
  conn :: bool
  candidates :: "candidate list"
  votes :: "vote list"
  candidates_next :: int
  votes_next :: int
  queries :: "site list"

text \<open>
  What a single request cannot control: whether \<open>process.env.DATABASE_URL\<close> is set,
  whether \<open>drizzle(url)\<close> throws, which statements of the request fail in the store
  (connection lost, timeout), the message text the driver puts into its errors, and
  the clock. Every statement of server/db.ts runs at most once per request, so one flag
  per statement covers every pattern of failures inside a request.
\<close>

datatype failure = QueryFailed | DataTooLong | ForeignKeyViolation

record env =
  DATABASE_URL :: bool
  drizzle_throws :: bool
  fails :: "site \<Rightarrow> bool"
  driver_message :: "site \<Rightarrow> failure \<Rightarrow> str"
  now :: nat

text \<open>A thrown JavaScript \<open>Error\<close>: one made by the application with \<open>new Error(msg)\<close>,
  or one raised by the database driver.\<close>

datatype js_error = Error str | DriverError failure str

fun message :: "js_error \<Rightarrow> str" where
  "message (Error m) = m"
| "message (DriverError k m) = m"

type_synonym 'a result = "(js_error + 'a) \<times> world"

section \<open>The store: statements issued by server/db.ts\<close>

text \<open>
  The relational store behaves as the schema and its migration declare it. A statement
  either fails as a whole and changes nothing, or takes effect; there is no transaction
  around the statements of a request, so what an earlier statement wrote stays when a
  later one fails. An insert into \<open>votes\<close> is refused when the identifier is longer than
  the 255 characters of its column (the store does not truncate) or when \<open>candidateId\<close>
  references no row of \<open>candidates\<close> (the foreign key of the migration). Identifiers
  are compared for equality as they were sent. Auto-increment keys are handed out in
  increasing order. The store runs one statement at a time; which requests the
  statements belong to is the business of the sections below. Each statement is
  recorded in the ghost log when it is sent.
\<close>

definition sent :: "site \<Rightarrow> world \<Rightarrow> world" where
  "sent q w = w\<lparr>queries := queries w @ [q]\<rparr>"

definition thrown :: "env \<Rightarrow> site \<Rightarrow> failure \<Rightarrow> js_error + 'a" where
  "thrown env q k = Inl (DriverError k (driver_message env q k))"

text \<open>\<open>db.select().from(candidates)\<close>\<close>

definition select_candidates :: "env \<Rightarrow> site \<Rightarrow> world \<Rightarrow> candidate list result" where
  "select_candidates env q w =
     (if fails env q then (thrown env q QueryFailed, sent q w)
      else (Inr (candidates w), sent q w))"

text \<open>\<open>db.select().from(votes).where(eq(votes.voterIdentifier, voterIdentifier)).limit(1)\<close>\<close>

definition select_votes_of :: "env \<Rightarrow> site \<Rightarrow> str \<Rightarrow> world \<Rightarrow> vote list result" where
  "select_votes_of env q voterIdentifier w =
     (if fails env q then (thrown env q QueryFailed, sent q w)
      else (Inr (take 1 (filter (\<lambda>r. v_voterIdentifier r = voterIdentifier) (votes w))),
            sent q w))"

text \<open>\<open>db.insert(votes).values({ candidateId, voterIdentifier })\<close>\<close>

definition insert_vote :: "env \<Rightarrow> site \<Rightarrow> int \<Rightarrow> str \<Rightarrow> world \<Rightarrow> unit result" where
  "insert_vote env q candidateId voterIdentifier w =
     (if fails env q then (thrown env q QueryFailed, sent q w)
      else if 255 < length voterIdentifier then (thrown env q DataTooLong, sent q w)
      else if candidateId \<notin> set (map c_id (candidates w))
        then (thrown env q ForeignKeyViolation, sent q w)
      else (Inr (),
            sent q (w\<lparr>votes := votes w @
                       [\<lparr>v_id = votes_next w, v_candidateId = candidateId,
                         v_voterIdentifier = voterIdentifier, v_createdAt = now env\<rparr>],
                     votes_next := votes_next w + 1\<rparr>)))"

text \<open>\<open>db.select().from(candidates).where(eq(candidates.id, candidateId)).limit(1)\<close>\<close>

definition select_candidate :: "env \<Rightarrow> site \<Rightarrow> int \<Rightarrow> world \<Rightarrow> candidate list result" where
  "select_candidate env q candidateId w =
     (if fails env q then (thrown env q QueryFailed, sent q w)
      else (Inr (take 1 (filter (\<lambda>c. c_id c = candidateId) (candidates w))), sent q w))"

text \<open>\<open>db.update(candidates).set({ votes: n }).where(eq(candidates.id, candidateId))\<close>\<close>

definition update_votes :: "env \<Rightarrow> site \<Rightarrow> int \<Rightarrow> int \<Rightarrow> world \<Rightarrow> unit result" where
  "update_votes env q candidateId n w =
     (if fails env q then (thrown env q QueryFailed, sent q w)
      else (Inr (),
            sent q (w\<lparr>candidates :=
                       map (\<lambda>c. if c_id c = candidateId then c\<lparr>c_votes := n\<rparr> else c)
                         (candidates w)\<rparr>)))"

text \<open>\<open>db.insert(candidates).values(candidatesList)\<close>: one multi-row insert; \<open>votes\<close> and
  \<open>createdAt\<close> take their column defaults.\<close>

definition insert_candidates :: "env \<Rightarrow> site \<Rightarrow> str list \<Rightarrow> world \<Rightarrow> unit result" where
  "insert_candidates env q names w =
     (if fails env q then (thrown env q QueryFailed, sent q w)
      else if list_ex (\<lambda>n. 255 < length n) names then (thrown env q DataTooLong, sent q w)
      else (Inr (),
            sent q (w\<lparr>candidates := candidates w @
                       map (\<lambda>(i, n). \<lparr>c_id = candidates_next w + int i, c_name = n,
                                      c_votes = 0, c_createdAt = now env\<rparr>)
                         (enumerate 0 names),
                     candidates_next := candidates_next w + int (length names)\<rparr>)))"

section \<open>server/db.ts\<close>

text \<open>\<open>getDb\<close>: create the drizzle instance lazily; a failure to create it leaves \<open>_db\<close>
  null. The result says whether the returned handle is non-null.\<close>

definition getDb :: "env \<Rightarrow> world \<Rightarrow> bool \<times> world" where
  "getDb env w =
     (if \<not> conn w \<and> DATABASE_URL env
      then (if drizzle_throws env then (False, w\<lparr>conn := False\<rparr>)
            else (True, w\<lparr>conn := True\<rparr>))
      else (conn w, w))"

definition getAllCandidates :: "env \<Rightarrow> world \<Rightarrow> candidate list result" where
  "getAllCandidates env w =
     (case getDb env w of (db, w1) \<Rightarrow>
        if \<not> db then (Inr [], w1)
        else (case select_candidates env Q_getAllCandidates w1 of
                (Inr result, w2) \<Rightarrow> (Inr result, w2)
              | (Inl error, w2) \<Rightarrow> (Inr [], w2)))"

definition hasVoted :: "env \<Rightarrow> str \<Rightarrow> world \<Rightarrow> bool result" where
  "hasVoted env voterIdentifier w =
     (case getDb env w of (db, w1) \<Rightarrow>
        if \<not> db then (Inr False, w1)
        else (case select_votes_of env Q_hasVoted voterIdentifier w1 of
                (Inr result, w2) \<Rightarrow> (Inr (0 < length result), w2)
              | (Inl error, w2) \<Rightarrow> (Inr False, w2)))"

definition already_voted_message :: str where
  "already_voted_message = map of_char ''This device has already voted''"

text \<open>\<open>addVote\<close>: the \<open>catch\<close> block logs and rethrows, so every error of the \<open>try\<close> block
  is the error of the call.\<close>

definition addVote :: "env \<Rightarrow> int \<Rightarrow> str \<Rightarrow> world \<Rightarrow> bool result" where
  "addVote env candidateId voterIdentifier w =
     (case getDb env w of (db, w1) \<Rightarrow>
        if \<not> db then (Inr False, w1)
        else (case hasVoted env voterIdentifier w1 of
                (Inl error, w2) \<Rightarrow> (Inl error, w2)
              | (Inr alreadyVoted, w2) \<Rightarrow>
                  if alreadyVoted then (Inl (Error already_voted_message), w2)
                  else (case insert_vote env Q_insertVote candidateId voterIdentifier w2 of
                          (Inl error, w3) \<Rightarrow> (Inl error, w3)
                        | (Inr _, w3) \<Rightarrow>
                            (case select_candidate env Q_selectCandidate candidateId w3 of
                               (Inl error, w4) \<Rightarrow> (Inl error, w4)
                             | (Inr [], w4) \<Rightarrow> (Inr True, w4)
                             | (Inr (c # _), w4) \<Rightarrow>
                                 (case update_votes env Q_updateCandidate candidateId
                                         (c_votes c + 1) w4 of
                                    (Inl error, w5) \<Rightarrow> (Inl error, w5)
                                  | (Inr _, w5) \<Rightarrow> (Inr True, w5))))))"

definition candidatesList :: "str list" where
  "candidatesList =
     [[1583, 32, 1571, 1581, 1605, 1583, 32, 1581, 1601, 1592, 1610],
      [1605, 1607, 1606, 1583, 1587, 32, 1571, 1581, 1605, 1583, 32, 1587, 1575, 1605, 1610],
      [1571, 46, 32, 1571, 1588, 1585, 1601, 32, 1575, 1604, 1588, 1576, 1585, 1575, 1608,
       1610],
      [1604, 1608, 1575, 1569, 46, 32, 1587, 1575, 1605, 1581, 32, 1593, 1576, 1583, 32,
       1575, 1604, 1601, 1578, 1575, 1581],
      [1571, 46, 1583, 32, 1605, 1603, 1585, 1605, 32, 1585, 1590, 1608, 1575, 1606]]"

text \<open>\<open>initializeCandidates\<close>: returns nothing; its \<open>catch\<close> block only logs.\<close>

definition initializeCandidates :: "env \<Rightarrow> world \<Rightarrow> unit result" where
  "initializeCandidates env w =
     (case getDb env w of (db, w1) \<Rightarrow>
        if \<not> db then (Inr (), w1)
        else (case select_candidates env Q_initSelect w1 of
                (Inl error, w2) \<Rightarrow> (Inr (), w2)
              | (Inr existingCandidates, w2) \<Rightarrow>
                  if 0 < length existingCandidates then (Inr (), w2)
                  else (case insert_candidates env Q_initInsert candidatesList w2 of
                          (Inl error, w3) \<Rightarrow> (Inr (), w3)
                        | (Inr _, w3) \<Rightarrow> (Inr (), w3))))"

section \<open>server/routers.ts: the \<open>voting\<close> router\<close>

text \<open>
  A procedure answers with a value or with an error. \<open>ValidationError\<close> is the answer
  of the input parser when the zod schema of the procedure rejects the input; the
  procedure body does not run then. \<open>TRPCError\<close> is an error thrown by the body.
\<close>

datatype trpc_code = BAD_REQUEST | INTERNAL_SERVER_ERROR

datatype trpc_error = ValidationError | TRPCError trpc_code str

type_synonym 'a reply = "(trpc_error + 'a) \<times> world"

record vote_input =
  candidateId :: int
  voterIdentifier :: str

record vote_output =
  success :: bool
  result_candidates :: "candidate list"

text \<open>\<open>String.prototype.includes\<close>: the second string occurs as a contiguous part.\<close>

fun str_includes :: "str \<Rightarrow> str \<Rightarrow> bool" where
  "str_includes [] t = (t = [])"
| "str_includes (x # xs) t = (prefix t (x # xs) \<or> str_includes xs t)"

definition duplicate_vote_message :: str where
  "duplicate_vote_message =
     [1607, 1584, 1575, 32, 1575, 1604, 1580, 1607, 1575, 1586, 32, 1602, 1583, 32, 1602,
      1575, 1605, 32, 1576, 1575, 1604, 1578, 1589, 1608, 1610, 1578, 32, 1576, 1575, 1604,
      1601, 1593, 1604]"

definition vote_failed_message :: str where
  "vote_failed_message =
     [1601, 1588, 1604, 32, 1575, 1604, 1578, 1589, 1608, 1610, 1578, 1548, 32, 1610, 1585,
      1580, 1609, 32, 1575, 1604, 1605, 1581, 1575, 1608, 1604, 1577, 32, 1605, 1585, 1577,
      32, 1571, 1582, 1585, 1609]"

text \<open>The \<open>catch\<close> block of the \<open>vote\<close> mutation. Everything thrown here is an instance
  of \<open>Error\<close>, so the test looks at the message only.\<close>

definition vote_catch :: "js_error \<Rightarrow> trpc_error" where
  "vote_catch error =
     (if str_includes (message error) (map of_char ''already voted'')
      then TRPCError BAD_REQUEST duplicate_vote_message
      else TRPCError INTERNAL_SERVER_ERROR vote_failed_message)"

text \<open>\<open>voting.getCandidates\<close>\<close>

definition voting_getCandidates :: "env \<Rightarrow> world \<Rightarrow> candidate list reply" where
  "voting_getCandidates env w =
     (case initializeCandidates env w of
        (Inl error, w1) \<Rightarrow> (Inl (TRPCError INTERNAL_SERVER_ERROR (message error)), w1)
      | (Inr _, w1) \<Rightarrow>
          (case getAllCandidates env w1 of
             (Inl error, w2) \<Rightarrow> (Inl (TRPCError INTERNAL_SERVER_ERROR (message error)), w2)
           | (Inr result, w2) \<Rightarrow> (Inr result, w2)))"

text \<open>\<open>voting.hasVoted\<close>, input \<open>z.object({ voterIdentifier: z.string() })\<close>: every string
  passes.\<close>

definition voting_hasVoted :: "env \<Rightarrow> str \<Rightarrow> world \<Rightarrow> bool reply" where
  "voting_hasVoted env voterId w =
     (case hasVoted env voterId w of
        (Inl error, w1) \<Rightarrow> (Inl (TRPCError INTERNAL_SERVER_ERROR (message error)), w1)
      | (Inr b, w1) \<Rightarrow> (Inr b, w1))"

text \<open>\<open>voting.vote\<close>, input \<open>candidateId: z.number().int().positive()\<close> and
  \<open>voterIdentifier: z.string().min(1)\<close>. The value \<open>addVote\<close> returns is not looked at.\<close>

definition voting_vote :: "env \<Rightarrow> vote_input \<Rightarrow> world \<Rightarrow> vote_output reply" where
  "voting_vote env input w =
     (if 0 < candidateId input \<and> 1 \<le> length (voterIdentifier input)
      then (case addVote env (candidateId input) (voterIdentifier input) w of
              (Inl error, w1) \<Rightarrow> (Inl (vote_catch error), w1)
            | (Inr _, w1) \<Rightarrow>
                (case getAllCandidates env w1 of
                   (Inl error, w2) \<Rightarrow> (Inl (vote_catch error), w2)
                 | (Inr cs, w2) \<Rightarrow>
                     (Inr \<lparr>success = True, result_candidates = cs\<rparr>, w2)))
      else (Inl ValidationError, w))"

section \<open>A request in steps\<close>

text \<open>
  Every \<open>await\<close> of \<open>addVote\<close> and of the \<open>vote\<close> mutation hands control back to the
  server, which may run statements of other requests before this one goes on. A
  \<open>voting.vote\<close> request is therefore also given as the steps between its awaits, one
  store statement each: the schema check and \<open>getDb\<close> of \<open>addVote\<close>, the existence read
  of \<open>hasVoted\<close>, the insert, the read of the candidate, the update with the counter
  that was read, and the final \<open>getAllCandidates\<close>. \<open>S_update n\<close> remembers
  \<open>candidate[0].votes + 1\<close> as it was read.
\<close>

datatype stage =
  S_start | S_check | S_insert | S_select | S_update int | S_list
  | S_done "trpc_error + vote_output"

fun vote_step :: "env \<Rightarrow> vote_input \<Rightarrow> stage \<Rightarrow> world \<Rightarrow> stage \<times> world" where
  "vote_step env input S_start w =
     (if 0 < candidateId input \<and> 1 \<le> length (voterIdentifier input)
      then (case getDb env w of (db, w1) \<Rightarrow> if db then (S_check, w1) else (S_list, w1))
      else (S_done (Inl ValidationError), w))"
| "vote_step env input S_check w =
     (case hasVoted env (voterIdentifier input) w of
        (Inl error, w1) \<Rightarrow> (S_done (Inl (vote_catch error)), w1)
      | (Inr alreadyVoted, w1) \<Rightarrow>
          if alreadyVoted then (S_done (Inl (vote_catch (Error already_voted_message))), w1)
          else (S_insert, w1))"
| "vote_step env input S_insert w =
     (case insert_vote env Q_insertVote (candidateId input) (voterIdentifier input) w of
        (Inl error, w1) \<Rightarrow> (S_done (Inl (vote_catch error)), w1)
      | (Inr _, w1) \<Rightarrow> (S_select, w1))"
| "vote_step env input S_select w =
     (case select_candidate env Q_selectCandidate (candidateId input) w of
        (Inl error, w1) \<Rightarrow> (S_done (Inl (vote_catch error)), w1)
      | (Inr [], w1) \<Rightarrow> (S_list, w1)
      | (Inr (c # _), w1) \<Rightarrow> (S_update (c_votes c + 1), w1))"
| "vote_step env input (S_update n) w =
     (case update_votes env Q_updateCandidate (candidateId input) n w of
        (Inl error, w1) \<Rightarrow> (S_done (Inl (vote_catch error)), w1)
      | (Inr _, w1) \<Rightarrow> (S_list, w1))"
| "vote_step env input S_list w =
     (case getAllCandidates env w of
        (Inl error, w1) \<Rightarrow> (S_done (Inl (vote_catch error)), w1)
      | (Inr cs, w1) \<Rightarrow> (S_done (Inr \<lparr>success = True, result_candidates = cs\<rparr>), w1))"
| "vote_step env input (S_done r) w = (S_done r, w)"

text \<open>Requests in flight, and a schedule: the request at the head of the schedule takes
  its next step.\<close>

record task =
  t_env :: env
  t_input :: vote_input
  t_stage :: stage

fun vote_interleaved :: "nat list \<Rightarrow> task list \<Rightarrow> world \<Rightarrow> task list \<times> world" where
  "vote_interleaved [] ts w = (ts, w)"
| "vote_interleaved (i # sched) ts w =
     (if i < length ts
      then (case vote_step (t_env (ts ! i)) (t_input (ts ! i)) (t_stage (ts ! i)) w of
              (st, w1) \<Rightarrow> vote_interleaved sched (ts[i := (ts ! i)\<lparr>t_stage := st\<rparr>]) w1)
      else vote_interleaved sched ts w)"

section \<open>Notions used to state the properties\<close>

text \<open>\<open>getDb\<close> hands out a handle: \<open>_db\<close> is already set, or it can be created now.\<close>

definition db_available :: "env \<Rightarrow> world \<Rightarrow> bool" where
  "db_available env w = (conn w \<or> (DATABASE_URL env \<and> \<not> drizzle_throws env))"

text \<open>The voter identifiers that have a row in \<open>votes\<close>, and the rows of one voter.\<close>

definition voters :: "world \<Rightarrow> str set" where
  "voters w = v_voterIdentifier ` set (votes w)"

definition votes_of :: "world \<Rightarrow> str \<Rightarrow> vote list" where
  "votes_of w v = filter (\<lambda>r. v_voterIdentifier r = v) (votes w)"

text \<open>The primary key of \<open>candidates\<close> as the auto-increment column keeps it: keys are
  unique, positive and below the next key to hand out.\<close>

definition primary_keys_ok :: "world \<Rightarrow> bool" where
  "primary_keys_ok w =
     (0 < candidates_next w \<and> distinct (map c_id (candidates w)) \<and>
      list_all (\<lambda>i. 0 < i \<and> i < candidates_next w) (map c_id (candidates w)))"

text \<open>No two rows of \<open>votes\<close> carry the same voter identifier.\<close>

definition one_vote :: "world \<Rightarrow> bool" where
  "one_vote w = distinct (map v_voterIdentifier (votes w))"

text \<open>The row a successful insert into \<open>votes\<close> appends, and the store after it.\<close>

definition new_vote :: "env \<Rightarrow> world \<Rightarrow> int \<Rightarrow> str \<Rightarrow> vote" where
  "new_vote env w c v =
     \<lparr>v_id = votes_next w, v_candidateId = c, v_voterIdentifier = v, v_createdAt = now env\<rparr>"

definition voted :: "env \<Rightarrow> world \<Rightarrow> int \<Rightarrow> str \<Rightarrow> world" where
  "voted env w c v =
     w\<lparr>conn := True, votes := votes w @ [new_vote env w c v],
       votes_next := votes_next w + 1\<rparr>"

text \<open>The rows the seeding insert appends to an empty \<open>candidates\<close> table.\<close>

definition seed_rows :: "env \<Rightarrow> world \<Rightarrow> candidate list" where
  "seed_rows env w =
     map (\<lambda>(i, n). \<lparr>c_id = candidates_next w + int i, c_name = n, c_votes = 0,
                    c_createdAt = now env\<rparr>)
       (enumerate 0 candidatesList)"

text \<open>A candidate table as seeding leaves it: the five names of \<open>candidatesList\<close>, in
  order, each with zero votes.\<close>

definition seeded :: "candidate list \<Rightarrow> bool" where
  "seeded cs = (length cs = 5 \<and> map c_name cs = candidatesList \<and> map c_votes cs = [0, 0, 0, 0, 0])"

text \<open>The number of vote rows that reference a candidate, and the stored counters
  agreeing with it.\<close>

definition tally :: "world \<Rightarrow> int \<Rightarrow> int" where
  "tally w cid = int (length (filter (\<lambda>r. v_candidateId r = cid) (votes w)))"

definition tally_consistent :: "world \<Rightarrow> bool" where
  "tally_consistent w = list_all (\<lambda>c. c_votes c = tally w (c_id c)) (candidates w)"

text \<open>The counters after one accepted vote for candidate \<open>cid\<close>.\<close>

definition counted :: "int \<Rightarrow> candidate list \<Rightarrow> candidate list" where
  "counted cid cs = map (\<lambda>x. if c_id x = cid then x\<lparr>c_votes := c_votes x + 1\<rparr> else x) cs"

text \<open>Requests made one after the other, none overlapping another, each against its own
  environment.\<close>

fun vote_all ::
  "(env \<times> vote_input) list \<Rightarrow> world \<Rightarrow> (trpc_error + vote_output) list \<times> world" where
  "vote_all [] w = ([], w)"
| "vote_all ((env, input) # rest) w =
     (case voting_vote env input w of (r, w1) \<Rightarrow>
        (case vote_all rest w1 of (rs, w2) \<Rightarrow> (r # rs, w2)))"

fun getCandidates_all ::
  "env list \<Rightarrow> world \<Rightarrow> (trpc_error + candidate list) list \<times> world" where
  "getCandidates_all [] w = ([], w)"
| "getCandidates_all (env # rest) w =
     (case voting_getCandidates env w of (r, w1) \<Rightarrow>
        (case getCandidates_all rest w1 of (rs, w2) \<Rightarrow> (r # rs, w2)))"

subsection \<open>Concrete stores and environments\<close>

text \<open>A process that has not connected yet, on a database with empty tables.\<close>

definition empty_store :: world where
  "empty_store = \<lparr>conn = False, candidates = [], votes = [], candidates_next = 1,
     votes_next = 1, queries = []\<rparr>"

text \<open>A configured process whose store answers every statement.\<close>

definition healthy :: env where
  "healthy = \<lparr>DATABASE_URL = True, drizzle_throws = False, fails = (\<lambda>q. False),
     driver_message = (\<lambda>q k. []), now = 0\<rparr>"

text \<open>The same, except that the existence read of \<open>hasVoted\<close> fails.\<close>

definition check_fails :: env where
  "check_fails = healthy\<lparr>fails := (\<lambda>q. q = Q_hasVoted)\<rparr>"

text \<open>A process started without \<open>DATABASE_URL\<close>.\<close>

definition no_database :: env where
  "no_database = healthy\<lparr>DATABASE_URL := False\<rparr>"

text \<open>The store after the first \<open>voting.getCandidates\<close> request.\<close>

definition seeded_store :: world where
  "seeded_store = snd (voting_getCandidates healthy empty_store)"

definition v1 :: str where
  "v1 = map of_char ''v1''"

definition v2 :: str where
  "v2 = map of_char ''v2''"

text \<open>Two voters who ask to vote for the first candidate at the same time.\<close>

definition two_voters :: "task list" where
  "two_voters =
     [\<lparr>t_env = healthy, t_input = \<lparr>candidateId = 1, voterIdentifier = v1\<rparr>, t_stage = S_start\<rparr>,
      \<lparr>t_env = healthy, t_input = \<lparr>candidateId = 1, voterIdentifier = v2\<rparr>, t_stage = S_start\<rparr>]"

text \<open>A schedule for them: each request runs up to its read of the counter, then each
  writes, then each lists the candidates.\<close>

definition both_read_first :: "nat list" where
  "both_read_first = [0, 0, 0, 0] @ [1, 1, 1, 1] @ [0, 1] @ [0, 1]"

text \<open>The store after voter \<open>v1\<close> has voted for the first candidate.\<close>

definition voted_store :: world where
  "voted_store =
     snd (voting_vote healthy \<lparr>candidateId = 1, voterIdentifier = v1\<rparr> seeded_store)"

section \<open>Basic facts about the store and the handle\<close>

lemma getDb_available: "db_available env w \<Longrightarrow> getDb env w = (True, w\<lparr>conn := True\<rparr>)"
  by (cases w) (auto simp: getDb_def db_available_def)

lemma getDb_unavailable: "\<not> db_available env w \<Longrightarrow> getDb env w = (False, w)"
  by (cases w) (auto simp: getDb_def db_available_def)

lemma db_available_conn [simp]: "db_available env (w\<lparr>conn := True\<rparr>)"
  by (simp add: db_available_def)

lemma sent_fields [simp]:
  "candidates (sent q w) = candidates w" "votes (sent q w) = votes w"
  "conn (sent q w) = conn w" "candidates_next (sent q w) = candidates_next w"
  "votes_next (sent q w) = votes_next w" "queries (sent q w) = queries w @ [q]"
  by (simp_all add: sent_def)

lemma db_available_sent [simp]: "db_available env (sent q w) = db_available env w"
  by (simp add: db_available_def)

lemma min_length_one [simp]: "Suc 0 \<le> length v \<longleftrightarrow> v \<noteq> []"
  by (cases v) simp_all

lemma voters_frame [simp]:
  "voters (w\<lparr>conn := b\<rparr>) = voters w" "voters (sent q w) = voters w"
  by (simp_all add: voters_def)

lemma voted_fields [simp]:
  "candidates (voted env w c v) = candidates w"
  "votes (voted env w c v) = votes w @ [new_vote env w c v]"
  "conn (voted env w c v)"
  by (simp_all add: voted_def)

lemma new_vote_fields [simp]:
  "v_candidateId (new_vote env w c v) = c" "v_voterIdentifier (new_vote env w c v) = v"
  by (simp_all add: new_vote_def)

section \<open>What each function of server/db.ts computes\<close>

lemma hasVoted_available:
  "db_available env w \<Longrightarrow>
   hasVoted env v w =
     (Inr (\<not> fails env Q_hasVoted \<and> v \<in> voters w), sent Q_hasVoted (w\<lparr>conn := True\<rparr>))"
  by (auto simp: hasVoted_def getDb_available select_votes_of_def thrown_def voters_def
      filter_empty_conv)

lemma hasVoted_unavailable: "\<not> db_available env w \<Longrightarrow> hasVoted env v w = (Inr False, w)"
  by (simp add: hasVoted_def getDb_unavailable)

lemma getAllCandidates_available:
  "db_available env w \<Longrightarrow>
   getAllCandidates env w =
     (Inr (if fails env Q_getAllCandidates then [] else candidates w),
      sent Q_getAllCandidates (w\<lparr>conn := True\<rparr>))"
  by (simp add: getAllCandidates_def getDb_available select_candidates_def thrown_def)

lemma getAllCandidates_unavailable:
  "\<not> db_available env w \<Longrightarrow> getAllCandidates env w = (Inr [], w)"
  by (simp add: getAllCandidates_def getDb_unavailable)

lemma getAllCandidates_tables [simp]:
  "candidates (snd (getAllCandidates env w)) = candidates w"
  "votes (snd (getAllCandidates env w)) = votes w"
  by (cases "db_available env w";
      simp add: getAllCandidates_available getAllCandidates_unavailable)+

lemma getAllCandidates_returns: "\<exists>cs. fst (getAllCandidates env w) = Inr cs"
  by (cases "db_available env w";
      simp add: getAllCandidates_available getAllCandidates_unavailable)

lemma addVote_unavailable: "\<not> db_available env w \<Longrightarrow> addVote env c v w = (Inr False, w)"
  by (simp add: addVote_def getDb_unavailable)

lemma addVote_available:
  assumes "db_available env w"
  shows "addVote env c v w =
    (if \<not> fails env Q_hasVoted \<and> v \<in> voters w
     then (Inl (Error already_voted_message), sent Q_hasVoted (w\<lparr>conn := True\<rparr>))
     else if fails env Q_insertVote
       then (thrown env Q_insertVote QueryFailed,
             sent Q_insertVote (sent Q_hasVoted (w\<lparr>conn := True\<rparr>)))
     else if 255 < length v
       then (thrown env Q_insertVote DataTooLong,
             sent Q_insertVote (sent Q_hasVoted (w\<lparr>conn := True\<rparr>)))
     else if c \<notin> c_id ` set (candidates w)
       then (thrown env Q_insertVote ForeignKeyViolation,
             sent Q_insertVote (sent Q_hasVoted (w\<lparr>conn := True\<rparr>)))
     else if fails env Q_selectCandidate
       then (thrown env Q_selectCandidate QueryFailed,
             sent Q_selectCandidate (sent Q_insertVote (sent Q_hasVoted (voted env w c v))))
     else if fails env Q_updateCandidate
       then (thrown env Q_updateCandidate QueryFailed,
             sent Q_updateCandidate (sent Q_selectCandidate (sent Q_insertVote
               (sent Q_hasVoted (voted env w c v)))))
     else (Inr True,
           sent Q_updateCandidate (sent Q_selectCandidate (sent Q_insertVote (sent Q_hasVoted
             ((voted env w c v)\<lparr>candidates :=
                map (\<lambda>x. if c_id x = c
                          then x\<lparr>c_votes :=
                                 c_votes (hd (filter (\<lambda>y. c_id y = c) (candidates w))) + 1\<rparr>
                          else x) (candidates w)\<rparr>))))))"
proof (cases "filter (\<lambda>y. c_id y = c) (candidates w)")
  case Nil
  then have "c \<notin> c_id ` set (candidates w)"
    by (auto simp: filter_empty_conv)
  with assms Nil show ?thesis
    by (simp add: addVote_def getDb_available hasVoted_available insert_vote_def thrown_def)
next
  case (Cons h rest)
  then have "c \<in> c_id ` set (candidates w)"
    by (metis (mono_tags, lifting) filter_empty_conv image_iff list.distinct(1))
  with assms Cons show ?thesis
    by (simp add: addVote_def getDb_available hasVoted_available insert_vote_def
        select_candidate_def update_votes_def thrown_def voted_def new_vote_def sent_def)
qed

lemma first_with_id:
  assumes "distinct (map c_id cs)" and "x \<in> set cs"
  shows "hd (filter (\<lambda>y. c_id y = c_id x) cs) = x"
proof -
  let ?f = "filter (\<lambda>y. c_id y = c_id x) cs"
  from assms(2) have "?f \<noteq> []" by (auto simp: filter_empty_conv)
  then have "hd ?f \<in> set ?f" by (rule hd_in_set)
  then have "hd ?f \<in> set cs" "c_id (hd ?f) = c_id x" by simp_all
  moreover from assms(1) have "inj_on c_id (set cs)" by (simp add: distinct_map)
  ultimately show ?thesis using assms(2) by (auto dest: inj_onD)
qed

lemma counted_first:
  assumes "distinct (map c_id cs)"
  shows "map (\<lambda>x. if c_id x = c
                  then x\<lparr>c_votes := c_votes (hd (filter (\<lambda>y. c_id y = c) cs)) + 1\<rparr>
                  else x) cs = counted c cs"
  unfolding counted_def
proof (rule map_cong [OF refl])
  fix x assume "x \<in> set cs"
  with assms show "(if c_id x = c
      then x\<lparr>c_votes := c_votes (hd (filter (\<lambda>y. c_id y = c) cs)) + 1\<rparr> else x) =
    (if c_id x = c then x\<lparr>c_votes := c_votes x + 1\<rparr> else x)"
    using first_with_id [of cs x] by auto
qed

section \<open>Tally\<close>

lemma tally_consistent_sent [simp]: "tally_consistent (sent q w) = tally_consistent w"
  by (simp add: tally_consistent_def tally_def)

lemma tally_consistent_conn [simp]: "tally_consistent (w\<lparr>conn := b\<rparr>) = tally_consistent w"
  by (simp add: tally_consistent_def tally_def)

lemma tally_counted:
  assumes "tally_consistent w" and "c \<in> c_id ` set (candidates w)"
  shows "tally_consistent
    ((voted env w c v)\<lparr>candidates :=
        map (\<lambda>x. if c_id x = c
                  then x\<lparr>c_votes := c_votes (hd (filter (\<lambda>y. c_id y = c) (candidates w))) + 1\<rparr>
                  else x) (candidates w)\<rparr>)"
proof -
  let ?h = "hd (filter (\<lambda>y. c_id y = c) (candidates w))"
  from assms(2) have "filter (\<lambda>y. c_id y = c) (candidates w) \<noteq> []"
    by (auto simp: filter_empty_conv)
  then have "?h \<in> set (filter (\<lambda>y. c_id y = c) (candidates w))"
    by (rule hd_in_set)
  then have h: "?h \<in> set (candidates w)" "c_id ?h = c"
    by simp_all
  with assms(1) have "c_votes ?h = tally w c"
    by (auto simp: tally_consistent_def list_all_iff)
  with assms(1) show ?thesis
    by (auto simp: tally_consistent_def list_all_iff tally_def)
qed

lemma addVote_tally:
  assumes "tally_consistent w" and "fst (addVote env c v w) = Inr b"
  shows "tally_consistent (snd (addVote env c v w))"
proof (cases "db_available env w")
  case False
  with assms(1) show ?thesis by (simp add: addVote_unavailable)
next
  case True
  with assms show ?thesis
    by (simp add: addVote_available thrown_def tally_counted split: if_splits)
qed

lemma getAllCandidates_tally [simp]:
  "tally_consistent (snd (getAllCandidates env w)) = tally_consistent w"
  by (simp add: tally_consistent_def tally_def)

lemma voting_vote_tally:
  assumes "tally_consistent w" and "fst (voting_vote env input w) = Inr out"
  shows "tally_consistent (snd (voting_vote env input w))"
proof -
  obtain r w1 where a: "addVote env (candidateId input) (voterIdentifier input) w = (r, w1)"
    by (cases "addVote env (candidateId input) (voterIdentifier input) w")
  obtain cs w2 where g: "getAllCandidates env w1 = (Inr cs, w2)"
    using getAllCandidates_returns [of env w1] by (cases "getAllCandidates env w1") auto
  from assms(2) a obtain b where r: "r = Inr b"
    by (cases r) (auto simp: voting_vote_def split: if_splits)
  from a r assms(1) have "tally_consistent w1"
    using addVote_tally [of w env "candidateId input" "voterIdentifier input" b] by simp
  moreover have "w2 = snd (getAllCandidates env w1)"
    using g by simp
  ultimately have "tally_consistent w2" by simp
  with assms(2) a r g show ?thesis
    by (simp add: voting_vote_def split: if_splits)
qed

lemma vote_all_tally:
  "tally_consistent w \<Longrightarrow> list_all (\<lambda>r. \<not> isl r) (fst (vote_all calls w)) \<Longrightarrow>
   tally_consistent (snd (vote_all calls w))"
proof (induction calls arbitrary: w)
  case Nil
  then show ?case by simp
next
  case (Cons call calls)
  obtain env input where call: "call = (env, input)" by (cases call)
  obtain r w1 where v: "voting_vote env input w = (r, w1)" by (cases "voting_vote env input w")
  obtain rs w2 where vs: "vote_all calls w1 = (rs, w2)" by (cases "vote_all calls w1")
  from Cons.prems(2) call v vs have ok: "\<not> isl r" "list_all (\<lambda>r. \<not> isl r) rs"
    by simp_all
  then obtain out where "r = Inr out" by (cases r) auto
  with Cons.prems(1) v have "tally_consistent w1"
    using voting_vote_tally [of w env input out] by simp
  with Cons.IH [of w1] ok vs have "tally_consistent w2" by simp
  with call v vs show ?case by simp
qed

section \<open>Seeding\<close>

lemma names_fit: "\<not> list_ex (\<lambda>n. 255 < length n) candidatesList"
  by (simp add: candidatesList_def)

lemma initializeCandidates_available:
  "db_available env w \<Longrightarrow>
   initializeCandidates env w =
     (Inr (),
      if fails env Q_initSelect \<or> candidates w \<noteq> []
      then sent Q_initSelect (w\<lparr>conn := True\<rparr>)
      else if fails env Q_initInsert
      then sent Q_initInsert (sent Q_initSelect (w\<lparr>conn := True\<rparr>))
      else sent Q_initInsert (sent Q_initSelect
             (w\<lparr>conn := True, candidates := seed_rows env w,
                candidates_next := candidates_next w + 5\<rparr>)))"
  using names_fit
  by (auto simp: initializeCandidates_def getDb_available select_candidates_def
      insert_candidates_def thrown_def seed_rows_def sent_def candidatesList_def)

lemma initializeCandidates_unavailable:
  "\<not> db_available env w \<Longrightarrow> initializeCandidates env w = (Inr (), w)"
  by (simp add: initializeCandidates_def getDb_unavailable)

lemma seeded_seed_rows: "seeded (seed_rows env w)"
  by (simp add: seeded_def seed_rows_def candidatesList_def)

lemma initializeCandidates_returns: "fst (initializeCandidates env w) = Inr ()"
  by (cases "db_available env w")
    (simp_all add: initializeCandidates_available initializeCandidates_unavailable)

lemma voting_getCandidates_eq:
  "voting_getCandidates env w =
     (Inr (projr (fst (getAllCandidates env (snd (initializeCandidates env w))))),
      snd (getAllCandidates env (snd (initializeCandidates env w))))"
proof -
  obtain w1 where i: "initializeCandidates env w = (Inr (), w1)"
    using initializeCandidates_returns [of env w] by (cases "initializeCandidates env w") auto
  obtain cs w2 where g: "getAllCandidates env w1 = (Inr cs, w2)"
    using getAllCandidates_returns [of env w1] by (cases "getAllCandidates env w1") auto
  from i g show ?thesis by (simp add: voting_getCandidates_def)
qed

lemma seeded_store_eq:
  "seeded_store =
     sent Q_getAllCandidates (sent Q_initInsert (sent Q_initSelect
       (empty_store\<lparr>conn := True, candidates := seed_rows healthy empty_store,
          candidates_next := 6\<rparr>)))"
  by (simp add: seeded_store_def voting_getCandidates_eq initializeCandidates_available
      getAllCandidates_available db_available_def healthy_def empty_store_def)

lemma seed_rows_healthy:
  "map c_id (seed_rows healthy empty_store) = [1, 2, 3, 4, 5]"
  "map c_votes (seed_rows healthy empty_store) = [0, 0, 0, 0, 0]"
  by (simp_all add: seed_rows_def candidatesList_def empty_store_def)

lemma fresh_seeding_tally:
  assumes "candidates w = []" and "votes w = []"
  shows "tally_consistent (snd (voting_getCandidates env w))"
proof -
  have "tally_consistent (snd (initializeCandidates env w))"
    using assms
    by (cases "db_available env w")
      (simp_all add: initializeCandidates_available initializeCandidates_unavailable
        tally_consistent_def seed_rows_def candidatesList_def tally_def)
  then show ?thesis
    by (simp add: voting_getCandidates_eq)
qed

text \<open>
  C3 (tally consistency), as amended. Start from a store with empty tables, let the
  first \<open>voting.getCandidates\<close> request seed it, and then make any sequence of
  \<open>voting.vote\<close> requests one after the other, none overlapping another, each in an
  environment of its own. If every request of the sequence is answered with success,
  then afterwards the \<open>votes\<close> counter of every candidate equals the number of rows of
  \<open>votes\<close> that reference the candidate.
\<close>

theorem tally_consistency:
  assumes "candidates w = []" and "votes w = []"
    and "list_all (\<lambda>r. \<not> isl r) (fst (vote_all calls (snd (voting_getCandidates env w))))"
  shows "tally_consistent (snd (vote_all calls (snd (voting_getCandidates env w))))"
  using fresh_seeding_tally [OF assms(1,2)] assms(3) by (rule vote_all_tally)


theorem tally_consistency_witness:
  "candidates empty_store = [] \<and> votes empty_store = [] \<and>
   fst (vote_all [(healthy, \<lparr>candidateId = 1, voterIdentifier = v1\<rparr>),
                  (healthy, \<lparr>candidateId = 2, voterIdentifier = [50]\<rparr>)] seeded_store) =
     [Inr \<lparr>success = True, result_candidates = counted 1 (candidates seeded_store)\<rparr>,
      Inr \<lparr>success = True,
           result_candidates = counted 2 (counted 1 (candidates seeded_store))\<rparr>] \<and>
   tally_consistent
     (snd (vote_all [(healthy, \<lparr>candidateId = 1, voterIdentifier = v1\<rparr>),
                     (healthy, \<lparr>candidateId = 2, voterIdentifier = [50]\<rparr>)] seeded_store))"
proof -
  have e: "candidates empty_store = []" "votes empty_store = []"
    by (simp_all add: empty_store_def)
  have r: "fst (vote_all [(healthy, \<lparr>candidateId = 1, voterIdentifier = v1\<rparr>),
                  (healthy, \<lparr>candidateId = 2, voterIdentifier = [50]\<rparr>)] seeded_store) =
     [Inr \<lparr>success = True, result_candidates = counted 1 (candidates seeded_store)\<rparr>,
      Inr \<lparr>success = True,
           result_candidates = counted 2 (counted 1 (candidates seeded_store))\<rparr>]"
    by (simp add: voting_vote_def addVote_available getAllCandidates_available
        seeded_store_def voting_getCandidates_def initializeCandidates_available
        db_available_def healthy_def empty_store_def seed_rows_def candidatesList_def
        v1_def voters_def counted_def)
  then have "list_all (\<lambda>r. \<not> isl r)
      (fst (vote_all [(healthy, \<lparr>candidateId = 1, voterIdentifier = v1\<rparr>),
          (healthy, \<lparr>candidateId = 2, voterIdentifier = [50]\<rparr>)]
        (snd (voting_getCandidates healthy empty_store))))"
    by (simp add: seeded_store_def)
  from tally_consistency [OF e this] e r show ?thesis
    by (simp add: seeded_store_def)
qed


text \<open>The steps of a request that runs alone are the request as \<open>voting_vote\<close> gives it,
  and a schedule that lets each request finish before the next starts is \<open>vote_all\<close>.\<close>

lemma vote_alone:
  "vote_interleaved [0, 0, 0, 0, 0, 0]
     [\<lparr>t_env = env, t_input = input, t_stage = S_start\<rparr>] w =
   ([\<lparr>t_env = env, t_input = input, t_stage = S_done (fst (voting_vote env input w))\<rparr>],
    snd (voting_vote env input w))"
proof (cases "0 < candidateId input \<and> voterIdentifier input \<noteq> []")
  case False
  then show ?thesis by (auto simp: voting_vote_def)
next
  case valid: True
  show ?thesis
  proof (cases "db_available env w")
    case False
    with valid show ?thesis
      by (simp add: voting_vote_def getDb_unavailable addVote_unavailable
          getAllCandidates_unavailable)
  next
    case True
    show ?thesis
    proof (cases "filter (\<lambda>y. c_id y = candidateId input) (candidates w)")
      case Nil
      then have "candidateId input \<notin> c_id ` set (candidates w)"
        by (auto simp: filter_empty_conv)
      with valid True Nil show ?thesis
        by (simp add: voting_vote_def getDb_available addVote_available hasVoted_available
            insert_vote_def thrown_def getAllCandidates_available)
    next
      case (Cons h rest)
      then have "candidateId input \<in> c_id ` set (candidates w)"
        by (metis (mono_tags, lifting) filter_empty_conv image_iff list.distinct(1))
      with valid True Cons show ?thesis
        by (simp add: voting_vote_def getDb_available addVote_available hasVoted_available
            insert_vote_def select_candidate_def update_votes_def thrown_def
            getAllCandidates_available voted_def new_vote_def sent_def db_available_def)
    qed
  qed
qed


lemma vote_interleaved_append:
  "vote_interleaved (xs @ ys) ts w =
     (case vote_interleaved xs ts w of (ts1, w1) \<Rightarrow> vote_interleaved ys ts1 w1)"
  by (induction xs arbitrary: ts w) (auto split: prod.splits)

lemma vote_interleaved_frame:
  assumes "vote_interleaved (replicate n 0) [t] w = ([t1], w1)"
  shows "vote_interleaved (replicate n (length pre)) (pre @ t # rest) w =
           (pre @ t1 # rest, w1)"
  using assms
proof (induction n arbitrary: t w)
  case 0
  then show ?case by simp
next
  case (Suc n)
  obtain st w2 where st: "vote_step (t_env t) (t_input t) (t_stage t) w = (st, w2)"
    by (cases "vote_step (t_env t) (t_input t) (t_stage t) w")
  with Suc.prems have "vote_interleaved (replicate n 0) [t\<lparr>t_stage := st\<rparr>] w2 = ([t1], w1)"
    by simp
  from Suc.IH [OF this] st show ?case
    by (simp add: nth_append list_update_append)
qed

lemma serial_schedule:
  assumes "list_all (\<lambda>t. t_stage t = S_start) ts"
  shows "vote_interleaved (concat (map (replicate 6) [length pre..<length pre + length ts]))
           (pre @ ts) w =
         (pre @ map2 (\<lambda>t r. t\<lparr>t_stage := S_done r\<rparr>) ts
                   (fst (vote_all (map (\<lambda>t. (t_env t, t_input t)) ts) w)),
          snd (vote_all (map (\<lambda>t. (t_env t, t_input t)) ts) w))"
  using assms
proof (induction ts arbitrary: pre w)
  case Nil
  then show ?case by simp
next
  case (Cons t ts)
  obtain r w1 where v: "voting_vote (t_env t) (t_input t) w = (r, w1)"
    by (cases "voting_vote (t_env t) (t_input t) w")
  obtain rs w2 where vs: "vote_all (map (\<lambda>t. (t_env t, t_input t)) ts) w1 = (rs, w2)"
    by (cases "vote_all (map (\<lambda>t. (t_env t, t_input t)) ts) w1")
  from Cons.prems have t: "t = \<lparr>t_env = t_env t, t_input = t_input t, t_stage = S_start\<rparr>"
    and rest: "list_all (\<lambda>t. t_stage t = S_start) ts"
    by (cases t; simp)+
  have "vote_interleaved (replicate 6 0) [t] w = ([t\<lparr>t_stage := S_done r\<rparr>], w1)"
    using vote_alone [of "t_env t" "t_input t" w] v
    by (subst t) (simp add: numeral_eq_Suc)
  then have one: "vote_interleaved (replicate 6 (length pre)) (pre @ t # ts) w =
      (pre @ t\<lparr>t_stage := S_done r\<rparr> # ts, w1)"
    by (rule vote_interleaved_frame)
  have sched: "concat (map (replicate 6) [length pre..<length pre + length (t # ts)]) =
      replicate 6 (length pre) @
      concat (map (replicate 6)
        [length (pre @ [t\<lparr>t_stage := S_done r\<rparr>])..<
         length (pre @ [t\<lparr>t_stage := S_done r\<rparr>]) + length ts])"
    by (simp add: upt_conv_Cons)
  from Cons.IH [OF rest, of "pre @ [t\<lparr>t_stage := S_done r\<rparr>]" w1] one v vs
  show ?case
    unfolding sched vote_interleaved_append by simp
qed

text \<open>
  C3 as stated, for every sequence of successful calls, fails when two calls overlap:
  \<open>addVote\<close> reads the counter, awaits, and writes what it read plus one, with no
  transaction around the two statements. On the seeded store two voters vote for
  candidate 1; both requests read the counter 0 before either writes. Every statement
  is answered and both requests are answered with success, yet two rows reference
  candidate 1 and its counter is 1.
\<close>

theorem overlapping_votes_lose_count:
  "tally_consistent seeded_store \<and>
   map t_stage (fst (vote_interleaved both_read_first two_voters seeded_store)) =
     [S_done (Inr \<lparr>success = True, result_candidates = counted 1 (candidates seeded_store)\<rparr>),
      S_done (Inr \<lparr>success = True, result_candidates = counted 1 (candidates seeded_store)\<rparr>)] \<and>
   map v_candidateId (votes (snd (vote_interleaved both_read_first two_voters seeded_store))) = [1, 1] \<and>
   map c_votes (candidates (snd (vote_interleaved both_read_first two_voters seeded_store))) = [1, 0, 0, 0, 0] \<and>
   \<not> tally_consistent (snd (vote_interleaved both_read_first two_voters seeded_store))"
proof -
  let ?w = "sent Q_getAllCandidates (sent Q_getAllCandidates
    (sent Q_updateCandidate (sent Q_updateCandidate
      (sent Q_selectCandidate (sent Q_insertVote (sent Q_hasVoted
        (sent Q_selectCandidate (sent Q_insertVote (sent Q_hasVoted
          (seeded_store
             \<lparr>votes := [\<lparr>v_id = 1, v_candidateId = 1, v_voterIdentifier = v1, v_createdAt = 0\<rparr>,
                        \<lparr>v_id = 2, v_candidateId = 1, v_voterIdentifier = v2, v_createdAt = 0\<rparr>],
              votes_next := 3,
              candidates := counted 1 (candidates seeded_store)\<rparr>))))))))))"
  have s: "tally_consistent seeded_store"
    by (simp add: tally_consistent_def tally_def seeded_store_eq empty_store_def seed_rows_def
        candidatesList_def)
  have c: "map c_id (candidates seeded_store) = [1, 2, 3, 4, 5]"
    "map c_votes (candidates seeded_store) = [0, 0, 0, 0, 0]"
    by (simp_all add: seeded_store_eq seed_rows_healthy)
  have r: "vote_interleaved both_read_first two_voters seeded_store =
      ([\<lparr>t_env = healthy, t_input = \<lparr>candidateId = 1, voterIdentifier = v1\<rparr>,
          t_stage = S_done (Inr \<lparr>success = True,
            result_candidates = counted 1 (candidates seeded_store)\<rparr>)\<rparr>,
        \<lparr>t_env = healthy, t_input = \<lparr>candidateId = 1, voterIdentifier = v2\<rparr>,
          t_stage = S_done (Inr \<lparr>success = True,
            result_candidates = counted 1 (candidates seeded_store)\<rparr>)\<rparr>], ?w)"
    by (simp add: both_read_first_def two_voters_def getDb_def hasVoted_def select_votes_of_def insert_vote_def
        select_candidate_def update_votes_def getAllCandidates_def select_candidates_def
        sent_def healthy_def v1_def v2_def counted_def seeded_store_eq empty_store_def
        seed_rows_def candidatesList_def)
  have n: "map c_votes (counted 1 (candidates seeded_store)) = [1, 0, 0, 0, 0]"
    by (simp add: counted_def seeded_store_eq seed_rows_def candidatesList_def empty_store_def)
  have "\<not> tally_consistent ?w"
    by (simp add: tally_consistent_def tally_def counted_def seeded_store_eq seed_rows_def
        candidatesList_def empty_store_def)
  with s r n show ?thesis by simp
qed

lemma initializeCandidates_candidates:
  "candidates (snd (initializeCandidates env w)) =
     (if db_available env w \<and> \<not> fails env Q_initSelect \<and> candidates w = [] \<and>
         \<not> fails env Q_initInsert
      then seed_rows env w else candidates w)"
  by (cases "db_available env w")
    (auto simp: initializeCandidates_available initializeCandidates_unavailable)

lemma getAllCandidates_result:
  "fst (getAllCandidates env w) = Inr [] \<or> fst (getAllCandidates env w) = Inr (candidates w)"
  by (cases "db_available env w")
    (simp_all add: getAllCandidates_available getAllCandidates_unavailable)

lemma seeded_not_empty: "seeded cs \<Longrightarrow> cs \<noteq> []"
  by (auto simp: seeded_def)

lemma voting_getCandidates_seeding:
  assumes "candidates w = [] \<or> seeded (candidates w)"
  shows "(\<exists>cs. fst (voting_getCandidates env w) = Inr cs \<and> (cs = [] \<or> seeded cs)) \<and>
         (candidates (snd (voting_getCandidates env w)) = [] \<or>
          seeded (candidates (snd (voting_getCandidates env w))))"
proof -
  let ?w1 = "snd (initializeCandidates env w)"
  from assms have i: "candidates ?w1 = [] \<or> seeded (candidates ?w1)"
    by (auto simp: initializeCandidates_candidates seeded_seed_rows)
  with getAllCandidates_result [of env ?w1]
  have "fst (getAllCandidates env ?w1) = Inr [] \<or>
      (\<exists>cs. fst (getAllCandidates env ?w1) = Inr cs \<and> seeded cs)"
    by auto
  with i show ?thesis
    by (auto simp: voting_getCandidates_eq)
qed

lemma voting_getCandidates_keeps:
  "candidates w \<noteq> [] \<Longrightarrow> candidates (snd (voting_getCandidates env w)) = candidates w"
  by (simp add: voting_getCandidates_eq initializeCandidates_candidates)

lemma getCandidates_all_seeding:
  "candidates w = [] \<or> seeded (candidates w) \<Longrightarrow>
   list_all (\<lambda>r. \<exists>cs. r = Inr cs \<and> (cs = [] \<or> seeded cs)) (fst (getCandidates_all envs w)) \<and>
   (candidates (snd (getCandidates_all envs w)) = [] \<or>
    seeded (candidates (snd (getCandidates_all envs w))))"
proof (induction envs arbitrary: w)
  case Nil
  then show ?case by simp
next
  case (Cons env envs)
  obtain r w1 where g: "voting_getCandidates env w = (r, w1)"
    by (cases "voting_getCandidates env w")
  obtain rs w2 where gs: "getCandidates_all envs w1 = (rs, w2)"
    by (cases "getCandidates_all envs w1")
  from voting_getCandidates_seeding [OF Cons.prems, of env] g
  have r: "\<exists>cs. r = Inr cs \<and> (cs = [] \<or> seeded cs)"
    and w1: "candidates w1 = [] \<or> seeded (candidates w1)"
    by simp_all
  from Cons.IH [OF w1] gs r g show ?case by simp
qed

lemma getCandidates_all_keeps:
  "candidates w \<noteq> [] \<Longrightarrow> candidates (snd (getCandidates_all envs w)) = candidates w"
proof (induction envs arbitrary: w)
  case Nil
  then show ?case by simp
next
  case (Cons env envs)
  obtain r w1 where g: "voting_getCandidates env w = (r, w1)"
    by (cases "voting_getCandidates env w")
  obtain rs w2 where gs: "getCandidates_all envs w1 = (rs, w2)"
    by (cases "getCandidates_all envs w1")
  from voting_getCandidates_keeps [OF Cons.prems, of env] g
  have k: "candidates w1 = candidates w" by simp
  with Cons.prems have "candidates w1 \<noteq> []" by simp
  from Cons.IH [OF this] gs g k show ?case by simp
qed

text \<open>
  C7 (idempotent seeding). \<open>initializeCandidates\<close> leaves a non-empty \<open>candidates\<close>
  table as it is. On an empty table it inserts nothing or the five rows of
  \<open>candidatesList\<close>, each with zero votes, and it does insert them when the store is
  available. Any number of \<open>voting.getCandidates\<close> requests in a row, each in an
  environment of its own, on a table that is empty or holds the seed rows: every
  answer is a list, empty or the five seed candidates with zero votes, and the table
  ends empty or with exactly these five; a non-empty table is never changed.
\<close>

theorem seeding_idempotent:
  "(candidates w \<noteq> [] \<longrightarrow> candidates (snd (initializeCandidates env w)) = candidates w) \<and>
   (candidates w = [] \<longrightarrow>
      candidates (snd (initializeCandidates env w)) = [] \<or>
      candidates (snd (initializeCandidates env w)) = seed_rows env w) \<and>
   (candidates w = [] \<and> db_available env w \<and> \<not> fails env Q_initSelect \<and>
    \<not> fails env Q_initInsert \<longrightarrow>
      candidates (snd (initializeCandidates env w)) = seed_rows env w) \<and>
   length (seed_rows env w) = 5 \<and> map c_name (seed_rows env w) = candidatesList \<and>
   map c_votes (seed_rows env w) = [0, 0, 0, 0, 0] \<and>
   (candidates w = [] \<or> seeded (candidates w) \<longrightarrow>
      list_all (\<lambda>r. \<exists>cs. r = Inr cs \<and> (cs = [] \<or> seeded cs))
        (fst (getCandidates_all envs w)) \<and>
      (candidates (snd (getCandidates_all envs w)) = [] \<or>
       seeded (candidates (snd (getCandidates_all envs w))))) \<and>
   (candidates w \<noteq> [] \<longrightarrow> candidates (snd (getCandidates_all envs w)) = candidates w)"
  using seeded_seed_rows [of env w] getCandidates_all_seeding [of w envs]
    getCandidates_all_keeps [of w envs]
  by (simp add: initializeCandidates_candidates seeded_def)

theorem seeding_idempotent_witness:
  "candidates empty_store = [] \<and> db_available healthy empty_store \<and>
   \<not> fails healthy Q_initSelect \<and> \<not> fails healthy Q_initInsert \<and>
   candidates (snd (initializeCandidates healthy empty_store)) =
     seed_rows healthy empty_store \<and>
   map c_id (seed_rows healthy empty_store) = [1, 2, 3, 4, 5] \<and>
   fst (getCandidates_all [healthy, healthy, healthy] empty_store) =
     [Inr (seed_rows healthy empty_store), Inr (seed_rows healthy empty_store),
      Inr (seed_rows healthy empty_store)] \<and>
   candidates (snd (getCandidates_all [healthy, healthy, healthy] empty_store)) =
     seed_rows healthy empty_store \<and>
   seeded (seed_rows healthy empty_store)"
proof -
  have h: "candidates empty_store = []" "db_available healthy empty_store"
    "\<not> fails healthy Q_initSelect" "\<not> fails healthy Q_initInsert"
    by (simp_all add: empty_store_def db_available_def healthy_def)
  have f: "fails healthy = (\<lambda>q. False)" by (simp add: healthy_def)
  from seeding_idempotent [of empty_store healthy "[healthy, healthy, healthy]"] h
  have i: "candidates (snd (initializeCandidates healthy empty_store)) =
      seed_rows healthy empty_store"
    and s: "seeded (seed_rows healthy empty_store)"
    by (simp_all add: seeded_def)
  from s have ne: "seed_rows healthy empty_store \<noteq> []"
    by (rule seeded_not_empty)
  have g: "getCandidates_all [healthy, healthy, healthy] empty_store =
      ([Inr (seed_rows healthy empty_store), Inr (seed_rows healthy empty_store),
        Inr (seed_rows healthy empty_store)],
       sent Q_getAllCandidates (sent Q_initSelect
        (sent Q_getAllCandidates (sent Q_initSelect
          (sent Q_getAllCandidates (sent Q_initInsert (sent Q_initSelect
            (empty_store\<lparr>conn := True, candidates := seed_rows healthy empty_store,
               candidates_next := candidates_next empty_store + 5\<rparr>))))))))"
    using h ne f
    by (simp add: voting_getCandidates_eq initializeCandidates_available
        getAllCandidates_available db_available_def)
  from h i s g show ?thesis
    by (simp add: seed_rows_healthy)
qed

section \<open>Casting a vote\<close>

lemma counted_ids [simp]:
  "map c_id (counted cid cs) = map c_id cs" "c_id ` set (counted cid cs) = c_id ` set cs"
proof -
  show "map c_id (counted cid cs) = map c_id cs"
    by (induction cs) (simp_all add: counted_def)
  then have "set (map c_id (counted cid cs)) = set (map c_id cs)" by simp
  then show "c_id ` set (counted cid cs) = c_id ` set cs" by simp
qed

lemma counted_others:
  "filter (\<lambda>x. c_id x \<noteq> cid) (counted cid cs) = filter (\<lambda>x. c_id x \<noteq> cid) cs"
  by (induction cs) (simp_all add: counted_def)

text \<open>The primary key of \<open>candidates\<close> stays unique and positive in every store that the
  three procedures reach from an empty database.\<close>

lemma primary_keys_ok_empty: "primary_keys_ok empty_store"
  by (simp add: primary_keys_ok_def empty_store_def)

lemma primary_keys_ok_frame [simp]:
  "primary_keys_ok (sent q w) = primary_keys_ok w"
  "primary_keys_ok (w\<lparr>conn := b\<rparr>) = primary_keys_ok w"
  by (simp_all add: primary_keys_ok_def)

lemma primary_keys_ok_getAllCandidates [simp]:
  "primary_keys_ok (snd (getAllCandidates env w)) = primary_keys_ok w"
  by (cases "db_available env w")
    (simp_all add: getAllCandidates_available getAllCandidates_unavailable)

lemma primary_keys_ok_getCandidates:
  assumes "primary_keys_ok w"
  shows "primary_keys_ok (snd (voting_getCandidates env w))"
proof (cases "db_available env w")
  case False
  with assms show ?thesis
    by (simp add: voting_getCandidates_eq initializeCandidates_unavailable)
next
  case True
  with assms show ?thesis
    by (simp add: voting_getCandidates_eq initializeCandidates_available)
      (simp add: primary_keys_ok_def seed_rows_def candidatesList_def)
qed

lemma primary_keys_ok_hasVoted:
  "primary_keys_ok w \<Longrightarrow> primary_keys_ok (snd (voting_hasVoted env v w))"
  by (cases "db_available env w")
    (simp_all add: voting_hasVoted_def hasVoted_available hasVoted_unavailable)

lemma c_id_after_update:
  "c_id \<circ> (\<lambda>x. if c_id x = c then x\<lparr>c_votes := n\<rparr> else x) = c_id"
  by (rule ext) simp

lemma primary_keys_ok_addVote:
  assumes "primary_keys_ok w"
  shows "primary_keys_ok (snd (addVote env c v w))"
proof (cases "db_available env w")
  case False
  with assms show ?thesis by (simp add: addVote_unavailable)
next
  case True
  with assms show ?thesis
    by (simp add: addVote_available primary_keys_ok_def voted_def c_id_after_update)
qed

lemma primary_keys_ok_vote:
  assumes "primary_keys_ok w"
  shows "primary_keys_ok (snd (voting_vote env input w))"
proof -
  obtain r w1 where a: "addVote env (candidateId input) (voterIdentifier input) w = (r, w1)"
    by (cases "addVote env (candidateId input) (voterIdentifier input) w")
  with primary_keys_ok_addVote [OF assms, of env "candidateId input" "voterIdentifier input"]
  have "primary_keys_ok w1" by simp
  then have "primary_keys_ok (snd (getAllCandidates env w1))" by simp
  with assms a \<open>primary_keys_ok w1\<close> show ?thesis
    by (cases r; cases "getAllCandidates env w1")
      (auto simp: voting_vote_def split: sum.splits)
qed

lemma primary_keys_ok_candidate:
  "primary_keys_ok w \<Longrightarrow> c \<in> set (candidates w) \<Longrightarrow>
   distinct (map c_id (candidates w)) \<and> 0 < c_id c"
  by (auto simp: primary_keys_ok_def list_all_iff)

text \<open>
  C6 (success postcondition), as amended. Let the store be available: \<open>getDb\<close> hands
  out a handle and no statement of the request fails. Let \<open>c\<close> be a row of
  \<open>candidates\<close>, whose primary key is positive and unique (as \<open>primary_keys_ok\<close> gives
  it), and let \<open>v\<close> be a voter identifier that has no row in \<open>votes\<close>, is not empty (the
  input contract of the operation) and has at most 255 characters (the width of its
  column). Then \<open>voting.vote\<close> records the vote and answers with success and with the
  whole candidate table as it is stored after the request: the rows of before, in
  order, where the counter of \<open>c\<close> is one greater and every other candidate is unchanged.
\<close>

theorem vote_succeeds:
  assumes "db_available env w" and "\<forall>q. \<not> fails env q"
    and "c \<in> set (candidates w)" and "distinct (map c_id (candidates w))" and "0 < c_id c"
    and "v \<noteq> []" and "length v \<le> 255" and "v \<notin> voters w"
  shows "fst (voting_vote env \<lparr>candidateId = c_id c, voterIdentifier = v\<rparr> w) =
           Inr \<lparr>success = True, result_candidates = counted (c_id c) (candidates w)\<rparr> \<and>
         candidates (snd (voting_vote env \<lparr>candidateId = c_id c, voterIdentifier = v\<rparr> w)) =
           counted (c_id c) (candidates w) \<and>
         votes (snd (voting_vote env \<lparr>candidateId = c_id c, voterIdentifier = v\<rparr> w)) =
           votes w @ [new_vote env w (c_id c) v] \<and>
         c\<lparr>c_votes := c_votes c + 1\<rparr> \<in> set (counted (c_id c) (candidates w)) \<and>
         filter (\<lambda>x. c_id x \<noteq> c_id c) (counted (c_id c) (candidates w)) =
           filter (\<lambda>x. c_id x \<noteq> c_id c) (candidates w)"
proof -
  let ?w1 = "sent Q_updateCandidate (sent Q_selectCandidate (sent Q_insertVote (sent Q_hasVoted
    ((voted env w (c_id c) v)\<lparr>candidates := counted (c_id c) (candidates w)\<rparr>))))"
  from assms(3) have "c_id c \<in> c_id ` set (candidates w)"
    by simp
  with assms(1,2,5-8) have a: "addVote env (c_id c) v w = (Inr True, ?w1)"
    by (simp add: addVote_available counted_first [OF assms(4)])
  have avail: "db_available env ?w1"
    by (simp add: db_available_def)
  from assms(2,5,6) have "voting_vote env \<lparr>candidateId = c_id c, voterIdentifier = v\<rparr> w =
      (Inr \<lparr>success = True, result_candidates = counted (c_id c) (candidates w)\<rparr>,
       snd (getAllCandidates env ?w1))"
    by (simp add: voting_vote_def a getAllCandidates_available [OF avail])
  moreover from assms(3) have "c\<lparr>c_votes := c_votes c + 1\<rparr> \<in> set (counted (c_id c) (candidates w))"
    by (force simp: counted_def)
  moreover have "filter (\<lambda>x. c_id x \<noteq> c_id c) (counted (c_id c) (candidates w)) =
      filter (\<lambda>x. c_id x \<noteq> c_id c) (candidates w)"
    by (rule counted_others)
  ultimately show ?thesis by simp
qed

theorem vote_succeeds_witness:
  "db_available healthy seeded_store \<and> (\<forall>q. \<not> fails healthy q) \<and>
   hd (candidates seeded_store) \<in> set (candidates seeded_store) \<and>
   distinct (map c_id (candidates seeded_store)) \<and> c_id (hd (candidates seeded_store)) = 1 \<and>
   v1 \<noteq> [] \<and> length v1 \<le> 255 \<and> v1 \<notin> voters seeded_store \<and>
   fst (voting_vote healthy \<lparr>candidateId = 1, voterIdentifier = v1\<rparr> seeded_store) =
     Inr \<lparr>success = True, result_candidates = counted 1 (candidates seeded_store)\<rparr> \<and>
   map c_votes (counted 1 (candidates seeded_store)) = [1, 0, 0, 0, 0]"
proof -
  have c: "map c_id (candidates seeded_store) = [1, 2, 3, 4, 5]"
    "map c_votes (candidates seeded_store) = [0, 0, 0, 0, 0]"
    by (simp_all add: seeded_store_eq seed_rows_healthy)
  then have ne: "candidates seeded_store \<noteq> []" by auto
  have h1: "db_available healthy seeded_store" by (simp add: db_available_def healthy_def)
  have h2: "\<forall>q. \<not> fails healthy q" by (simp add: healthy_def)
  have h3: "hd (candidates seeded_store) \<in> set (candidates seeded_store)"
    using ne by simp
  have h4: "distinct (map c_id (candidates seeded_store))" by (simp add: c)
  have i: "c_id (hd (candidates seeded_store)) = 1"
    using c(1) ne by (cases "candidates seeded_store") auto
  have h5: "0 < c_id (hd (candidates seeded_store))" by (simp add: i)
  have h6: "v1 \<noteq> []" "length v1 \<le> 255" by (simp_all add: v1_def)
  have h7: "v1 \<notin> voters seeded_store"
    by (simp add: voters_def seeded_store_eq empty_store_def)
  have "map c_votes (counted 1 (candidates seeded_store)) = [1, 0, 0, 0, 0]"
    by (simp add: counted_def seeded_store_eq seed_rows_def candidatesList_def empty_store_def)
  with vote_succeeds [OF h1 h2 h3 h4 h5 h6 h7] h1 h2 h3 h4 h6 h7 i show ?thesis
    by simp
qed

text \<open>
  C6 as stated, for every fresh voter identifier, fails: an identifier of 256
  characters passes the schema of \<open>voting.vote\<close> (which sets no upper bound), the store
  refuses the insert, and the request for the first candidate of the seeded store is
  answered with the generic failure; no vote is recorded.
\<close>

theorem long_identifier_refused:
  "db_available healthy seeded_store \<and> (\<forall>q. \<not> fails healthy q) \<and>
   1 \<in> c_id ` set (candidates seeded_store) \<and>
   replicate 256 97 \<notin> voters seeded_store \<and>
   fst (voting_vote healthy \<lparr>candidateId = 1, voterIdentifier = replicate 256 97\<rparr>
          seeded_store) =
     Inl (TRPCError INTERNAL_SERVER_ERROR vote_failed_message) \<and>
   votes (snd (voting_vote healthy \<lparr>candidateId = 1, voterIdentifier = replicate 256 97\<rparr>
          seeded_store)) = []"
proof -
  have h: "db_available healthy seeded_store" "\<forall>q. \<not> fails healthy q"
    by (simp_all add: db_available_def healthy_def)
  have c: "1 \<in> c_id ` set (candidates seeded_store)"
    by (simp add: seeded_store_eq seed_rows_healthy flip: set_map)
  have v: "votes seeded_store = []" "voters seeded_store = {}"
    by (simp_all add: voters_def seeded_store_eq empty_store_def)
  have m: "driver_message healthy Q_insertVote DataTooLong = []"
    by (simp add: healthy_def)
  from h c v have "addVote healthy 1 (replicate 256 97) seeded_store =
      (thrown healthy Q_insertVote DataTooLong,
       sent Q_insertVote (sent Q_hasVoted (seeded_store\<lparr>conn := True\<rparr>)))"
    by (simp add: addVote_available)
  with h c v m show ?thesis
    by (simp add: voting_vote_def thrown_def vote_catch_def)
qed

text \<open>
  An unknown candidate as far as it is rejected. Let \<open>getDb\<close> hand out a handle, let
  \<open>cid\<close> be the key of no row of \<open>candidates\<close> and let \<open>v\<close> have no row in \<open>votes\<close>. Then
  \<open>addVote\<close> throws and \<open>voting.vote\<close> answers with an error, never with success,
  whatever statements fail; neither table changes. When the insert reaches the store
  with an identifier that fits its column, the error thrown is the store's refusal of
  the dangling reference (the foreign key of \<open>votes.candidateId\<close>); \<open>addVote\<close> itself, had
  the insert gone through, would skip the update and return \<open>true\<close>.
\<close>

lemma unknown_candidate_rejected:
  assumes "db_available env w" and "cid \<notin> c_id ` set (candidates w)" and "v \<notin> voters w"
  shows "isl (fst (addVote env cid v w)) \<and>
         isl (fst (voting_vote env \<lparr>candidateId = cid, voterIdentifier = v\<rparr> w)) \<and>
         votes (snd (voting_vote env \<lparr>candidateId = cid, voterIdentifier = v\<rparr> w)) = votes w \<and>
         candidates (snd (voting_vote env \<lparr>candidateId = cid, voterIdentifier = v\<rparr> w)) =
           candidates w \<and>
         (\<not> fails env Q_insertVote \<and> length v \<le> 255 \<longrightarrow>
            fst (addVote env cid v w) = thrown env Q_insertVote ForeignKeyViolation)"
proof -
  from assms have a: "addVote env cid v w =
      (if fails env Q_insertVote then thrown env Q_insertVote QueryFailed
       else if 255 < length v then thrown env Q_insertVote DataTooLong
       else thrown env Q_insertVote ForeignKeyViolation,
       sent Q_insertVote (sent Q_hasVoted (w\<lparr>conn := True\<rparr>)))"
    by (simp add: addVote_available)
  then have "isl (fst (addVote env cid v w))"
    by (simp add: thrown_def)
  moreover from a have "\<not> fails env Q_insertVote \<and> length v \<le> 255 \<longrightarrow>
      fst (addVote env cid v w) = thrown env Q_insertVote ForeignKeyViolation"
    by simp
  moreover from a have "isl (fst (voting_vote env \<lparr>candidateId = cid, voterIdentifier = v\<rparr> w))"
    "votes (snd (voting_vote env \<lparr>candidateId = cid, voterIdentifier = v\<rparr> w)) = votes w"
    "candidates (snd (voting_vote env \<lparr>candidateId = cid, voterIdentifier = v\<rparr> w)) =
       candidates w"
    by (simp_all add: voting_vote_def thrown_def)
  ultimately show ?thesis by simp
qed

lemma unknown_candidate_rejected_example:
  "db_available healthy seeded_store \<and> 9 \<notin> c_id ` set (candidates seeded_store) \<and>
   v1 \<notin> voters seeded_store \<and>
   fst (addVote healthy 9 v1 seeded_store) = Inl (DriverError ForeignKeyViolation []) \<and>
   fst (voting_vote healthy \<lparr>candidateId = 9, voterIdentifier = v1\<rparr> seeded_store) =
     Inl (TRPCError INTERNAL_SERVER_ERROR vote_failed_message) \<and>
   votes (snd (voting_vote healthy \<lparr>candidateId = 9, voterIdentifier = v1\<rparr> seeded_store)) = []"
proof -
  have c: "map c_id (candidates seeded_store) = [1, 2, 3, 4, 5]"
    by (simp add: seeded_store_eq seed_rows_healthy)
  have h1: "db_available healthy seeded_store" by (simp add: db_available_def healthy_def)
  have h2: "9 \<notin> c_id ` set (candidates seeded_store)"
    using c by (simp flip: set_map)
  have h3: "v1 \<notin> voters seeded_store"
    by (simp add: voters_def seeded_store_eq empty_store_def)
  have f: "\<not> fails healthy Q_insertVote \<and> length v1 \<le> 255"
    by (simp add: healthy_def v1_def)
  have t: "thrown healthy Q_insertVote ForeignKeyViolation =
      (Inl (DriverError ForeignKeyViolation []) :: js_error + bool)"
    by (simp add: thrown_def healthy_def)
  have v: "votes seeded_store = []" by (simp add: seeded_store_eq empty_store_def)
  from unknown_candidate_rejected [OF h1 h2 h3] f t
  have a: "fst (addVote healthy 9 v1 seeded_store) = Inl (DriverError ForeignKeyViolation [])"
    and n: "votes (snd (voting_vote healthy \<lparr>candidateId = 9, voterIdentifier = v1\<rparr>
      seeded_store)) = []"
    by (simp_all add: v)
  from a have "fst (voting_vote healthy \<lparr>candidateId = 9, voterIdentifier = v1\<rparr> seeded_store) =
      Inl (TRPCError INTERNAL_SERVER_ERROR vote_failed_message)"
    by (cases "addVote healthy 9 v1 seeded_store")
      (simp add: voting_vote_def v1_def vote_catch_def)
  with a n h1 h2 h3 show ?thesis by simp
qed


lemma voted_store_eq:
  "voted_store =
     sent Q_getAllCandidates (sent Q_updateCandidate (sent Q_selectCandidate
       (sent Q_insertVote (sent Q_hasVoted
         ((voted healthy seeded_store 1 v1)
            \<lparr>candidates := counted 1 (candidates seeded_store)\<rparr>)))))"
proof -
  have c: "distinct (map c_id (candidates seeded_store))"
    "1 \<in> c_id ` set (candidates seeded_store)"
    by (simp_all add: seeded_store_eq seed_rows_healthy flip: set_map)
  have "v1 \<notin> voters seeded_store"
    by (simp add: voters_def seeded_store_eq empty_store_def)
  with c(2) show ?thesis
    by (simp add: voted_store_def voting_vote_def addVote_available getAllCandidates_available
        counted_first [OF c(1)] db_available_def healthy_def v1_def)
qed

lemma voted_store_tables:
  "votes voted_store = [\<lparr>v_id = 1, v_candidateId = 1, v_voterIdentifier = v1, v_createdAt = 0\<rparr>]"
  "map c_id (candidates voted_store) = [1, 2, 3, 4, 5]"
  "map c_votes (candidates voted_store) = [1, 0, 0, 0, 0]"
  "conn voted_store"
  by (simp_all add: voted_store_eq new_vote_def seeded_store_eq empty_store_def healthy_def
      counted_def seed_rows_def candidatesList_def)

text \<open>
  Duplicate rejection as far as it holds. Let \<open>getDb\<close> hand out a handle, let the
  existence read of \<open>hasVoted\<close> be answered by the store, and let \<open>v\<close> have a row in
  \<open>votes\<close>. Then, for every candidate id \<open>c\<close>, \<open>addVote\<close> throws its "already voted" error
  and changes neither table; \<open>voting.vote\<close>, for an input that passes its schema,
  answers with the \<open>BAD_REQUEST\<close> error carrying the duplicate-vote message, which
  differs from the generic failure answer and from a validation error, and changes
  neither table.
\<close>

lemma duplicate_vote_rejected:
  assumes "db_available env w" and "\<not> fails env Q_hasVoted" and "v \<in> voters w"
  shows "fst (addVote env c v w) = Inl (Error already_voted_message) \<and>
         votes (snd (addVote env c v w)) = votes w \<and>
         candidates (snd (addVote env c v w)) = candidates w \<and>
         fst (voting_vote env \<lparr>candidateId = c, voterIdentifier = v\<rparr> w) =
           Inl (if 0 < c \<and> v \<noteq> [] then TRPCError BAD_REQUEST duplicate_vote_message
                else ValidationError) \<and>
         votes (snd (voting_vote env \<lparr>candidateId = c, voterIdentifier = v\<rparr> w)) = votes w \<and>
         candidates (snd (voting_vote env \<lparr>candidateId = c, voterIdentifier = v\<rparr> w)) =
           candidates w \<and>
         TRPCError BAD_REQUEST duplicate_vote_message \<noteq>
           TRPCError INTERNAL_SERVER_ERROR vote_failed_message \<and>
         TRPCError BAD_REQUEST duplicate_vote_message \<noteq> ValidationError"
proof -
  from assms have a: "addVote env c v w =
      (Inl (Error already_voted_message), sent Q_hasVoted (w\<lparr>conn := True\<rparr>))"
    by (simp add: addVote_available)
  have m: "vote_catch (Error already_voted_message) = TRPCError BAD_REQUEST duplicate_vote_message"
    by (simp add: vote_catch_def already_voted_message_def)
  from a m show ?thesis
    by (simp add: voting_vote_def)
qed

lemma duplicate_vote_rejected_example:
  "db_available healthy voted_store \<and> \<not> fails healthy Q_hasVoted \<and> v1 \<in> voters voted_store \<and>
   fst (voting_vote healthy \<lparr>candidateId = 2, voterIdentifier = v1\<rparr> voted_store) =
     Inl (TRPCError BAD_REQUEST duplicate_vote_message) \<and>
   votes (snd (voting_vote healthy \<lparr>candidateId = 2, voterIdentifier = v1\<rparr> voted_store)) =
     votes voted_store \<and>
   map c_votes (candidates
     (snd (voting_vote healthy \<lparr>candidateId = 2, voterIdentifier = v1\<rparr> voted_store))) =
     [1, 0, 0, 0, 0]"
proof -
  have h1: "db_available healthy voted_store"
    by (simp add: db_available_def voted_store_tables)
  have h2: "\<not> fails healthy Q_hasVoted" by (simp add: healthy_def)
  have h3: "v1 \<in> voters voted_store" by (simp add: voters_def voted_store_tables)
  have "v1 \<noteq> []" by (simp add: v1_def)
  with duplicate_vote_rejected [OF h1 h2 h3, of 2] h1 h2 h3 show ?thesis
    by (simp add: voted_store_tables)
qed

text \<open>
  C10 (a failed existence read counts as "has not voted"). Let \<open>getDb\<close> hand out a
  handle, let the existence read of \<open>hasVoted\<close> fail in the store while the insert, the
  read of the candidate and the update are answered, and let \<open>c\<close> be the key of a
  candidate and \<open>v\<close> fit its column. Then \<open>hasVoted\<close> returns \<open>false\<close>, and \<open>addVote\<close>
  returns \<open>true\<close> after appending a row for \<open>v\<close> to \<open>votes\<close> -- whether or not \<open>v\<close> already
  has one. The instance below is a store in which \<open>v1\<close> has a row and gets a second.
\<close>

theorem failed_check_admits_vote:
  assumes "db_available env w" and "fails env Q_hasVoted"
    and "\<not> fails env Q_insertVote" and "\<not> fails env Q_selectCandidate"
    and "\<not> fails env Q_updateCandidate"
    and "c \<in> c_id ` set (candidates w)" and "length v \<le> 255"
  shows "fst (hasVoted env v w) = Inr False \<and> fst (addVote env c v w) = Inr True \<and>
         votes (snd (addVote env c v w)) = votes w @ [new_vote env w c v] \<and>
         votes_of (snd (addVote env c v w)) v = votes_of w v @ [new_vote env w c v]"
  using assms by (simp add: hasVoted_available addVote_available votes_of_def)

theorem failed_check_admits_vote_witness:
  "db_available check_fails voted_store \<and> fails check_fails Q_hasVoted \<and>
   2 \<in> c_id ` set (candidates voted_store) \<and>
   length (votes_of voted_store v1) = 1 \<and>
   fst (hasVoted check_fails v1 voted_store) = Inr False \<and>
   fst (addVote check_fails 2 v1 voted_store) = Inr True \<and>
   length (votes_of (snd (addVote check_fails 2 v1 voted_store)) v1) = 2"
proof -
  have h1: "db_available check_fails voted_store"
    by (simp add: db_available_def voted_store_tables)
  have h2: "fails check_fails Q_hasVoted" "\<not> fails check_fails Q_insertVote"
    "\<not> fails check_fails Q_selectCandidate" "\<not> fails check_fails Q_updateCandidate"
    by (simp_all add: check_fails_def healthy_def)
  have h3: "2 \<in> c_id ` set (candidates voted_store)"
    by (simp add: voted_store_tables flip: set_map)
  have h4: "length v1 \<le> 255" by (simp add: v1_def)
  have n: "length (votes_of voted_store v1) = 1"
    by (simp add: votes_of_def voted_store_tables)
  from failed_check_admits_vote [OF h1 h2 h3 h4] n h1 h2(1) h3 show ?thesis
    by simp
qed


section \<open>Reads\<close>

lemma db_available_initializeCandidates [simp]:
  "db_available env (snd (initializeCandidates env w)) = db_available env w"
  by (cases "db_available env w")
    (simp_all add: initializeCandidates_available initializeCandidates_unavailable
      db_available_def)

text \<open>
  C8 (read-path degradation). The store is unreachable for a read when \<open>getDb\<close> hands
  out no handle or when the read's statement fails in the store. In both cases
  \<open>getAllCandidates\<close> returns the empty list and \<open>hasVoted\<close> returns \<open>false\<close>, and so do the
  procedures \<open>voting.getCandidates\<close> and \<open>voting.hasVoted\<close> built on them; none of the
  four ever answers with an error.
\<close>

theorem reads_degrade:
  "(\<not> db_available env w \<or> fails env Q_getAllCandidates \<longrightarrow>
      fst (getAllCandidates env w) = Inr [] \<and> fst (voting_getCandidates env w) = Inr []) \<and>
   (\<not> db_available env w \<or> fails env Q_hasVoted \<longrightarrow>
      fst (hasVoted env v w) = Inr False \<and> fst (voting_hasVoted env v w) = Inr False) \<and>
   \<not> isl (fst (getAllCandidates env w)) \<and> \<not> isl (fst (hasVoted env v w)) \<and>
   \<not> isl (fst (voting_getCandidates env w)) \<and> \<not> isl (fst (voting_hasVoted env v w))"
proof (cases "db_available env w")
  case True
  then show ?thesis
    by (simp add: getAllCandidates_available hasVoted_available voting_getCandidates_eq
        voting_hasVoted_def)
next
  case False
  then show ?thesis
    by (simp add: getAllCandidates_unavailable hasVoted_unavailable voting_getCandidates_eq
        voting_hasVoted_def)
qed

theorem reads_degrade_witness:
  "\<not> db_available no_database (voted_store\<lparr>conn := False\<rparr>) \<and>
   db_available check_fails voted_store \<and> fails check_fails Q_hasVoted \<and>
   v1 \<in> voters voted_store \<and> candidates voted_store \<noteq> [] \<and>
   fst (getAllCandidates no_database (voted_store\<lparr>conn := False\<rparr>)) = Inr [] \<and>
   fst (voting_getCandidates no_database (voted_store\<lparr>conn := False\<rparr>)) = Inr [] \<and>
   fst (hasVoted no_database v1 (voted_store\<lparr>conn := False\<rparr>)) = Inr False \<and>
   fst (voting_hasVoted check_fails v1 voted_store) = Inr False"
proof -
  have h1: "\<not> db_available no_database (voted_store\<lparr>conn := False\<rparr>)"
    by (simp add: db_available_def no_database_def healthy_def)
  have h2: "db_available check_fails voted_store" "fails check_fails Q_hasVoted"
    by (simp_all add: db_available_def voted_store_tables check_fails_def healthy_def)
  have h3: "v1 \<in> voters voted_store" by (simp add: voters_def voted_store_tables)
  have "map c_id (candidates voted_store) \<noteq> []" by (simp add: voted_store_tables)
  then have h4: "candidates voted_store \<noteq> []" by auto
  from reads_degrade [of no_database "voted_store\<lparr>conn := False\<rparr>" v1]
    reads_degrade [of check_fails voted_store v1] h1 h2 h3 h4
  show ?thesis by simp
qed

section \<open>Defects\<close>

text \<open>
  C1 (one-vote invariant) does not hold of the code. \<open>addVote\<close> decides whether the
  voter has voted by calling \<open>hasVoted\<close>, which answers \<open>false\<close> when its read fails in
  the store. On the seeded store, voter \<open>v1\<close> votes for candidate 1; in a second call the
  existence read fails and the other statements are answered: the call returns \<open>true\<close>
  and \<open>votes\<close> holds two rows with voter identifier \<open>v1\<close>.
\<close>

theorem one_vote_invariant_broken:
  "fst (addVote healthy 1 v1 seeded_store) = Inr True \<and>
   fst (addVote check_fails 2 v1 (snd (addVote healthy 1 v1 seeded_store))) = Inr True \<and>
   map v_voterIdentifier
     (votes (snd (addVote check_fails 2 v1 (snd (addVote healthy 1 v1 seeded_store))))) =
     [v1, v1]"
proof -
  let ?w1 = "sent Q_updateCandidate (sent Q_selectCandidate (sent Q_insertVote (sent Q_hasVoted
    ((voted healthy seeded_store 1 v1)
       \<lparr>candidates := counted 1 (candidates seeded_store)\<rparr>))))"
  have c: "distinct (map c_id (candidates seeded_store))"
    "1 \<in> c_id ` set (candidates seeded_store)" "2 \<in> c_id ` set (candidates seeded_store)"
    by (simp_all add: seeded_store_eq seed_rows_healthy flip: set_map)
  have v: "votes seeded_store = []" "db_available healthy seeded_store"
    by (simp_all add: seeded_store_eq empty_store_def db_available_def)
  have f: "fails check_fails = (\<lambda>q. q = Q_hasVoted)" "fails healthy = (\<lambda>q. False)"
    by (simp_all add: check_fails_def healthy_def)
  have l: "length v1 = 2" by (simp add: v1_def)
  have first: "addVote healthy 1 v1 seeded_store = (Inr True, ?w1)"
    using c v f l by (simp add: addVote_available voters_def counted_first)
  have "db_available check_fails ?w1" "2 \<in> c_id ` set (candidates ?w1)"
    using c(3) by (simp_all add: db_available_def)
  then have "fst (addVote check_fails 2 v1 ?w1) = Inr True"
    "votes (snd (addVote check_fails 2 v1 ?w1)) = votes ?w1 @ [new_vote check_fails ?w1 2 v1]"
    using f l by (simp_all add: addVote_available)
  with first v(1) show ?thesis by simp
qed

text \<open>
  C2 (duplicate rejection) does not hold of the code, for the same reason. Voter \<open>v1\<close>
  has voted for candidate 1. A second \<open>voting.vote\<close> request of \<open>v1\<close>, for candidate 2,
  whose existence read fails in the store, is answered with success: a second row is
  stored and the counter of candidate 2 goes up.
\<close>

theorem duplicate_vote_accepted:
  "v1 \<in> voters voted_store \<and>
   fst (voting_vote check_fails \<lparr>candidateId = 2, voterIdentifier = v1\<rparr> voted_store) =
     Inr \<lparr>success = True, result_candidates = counted 2 (candidates voted_store)\<rparr> \<and>
   map c_votes (candidates voted_store) = [1, 0, 0, 0, 0] \<and>
   map c_votes (counted 2 (candidates voted_store)) = [1, 1, 0, 0, 0] \<and>
   map v_voterIdentifier
     (votes (snd (voting_vote check_fails \<lparr>candidateId = 2, voterIdentifier = v1\<rparr>
        voted_store))) = [v1, v1]"
proof -
  let ?w1 = "sent Q_updateCandidate (sent Q_selectCandidate (sent Q_insertVote (sent Q_hasVoted
    ((voted check_fails voted_store 2 v1)
       \<lparr>candidates := counted 2 (candidates voted_store)\<rparr>))))"
  have c: "distinct (map c_id (candidates voted_store))"
    "2 \<in> c_id ` set (candidates voted_store)"
    by (simp_all add: voted_store_tables flip: set_map)
  have h: "db_available check_fails voted_store" "v1 \<in> voters voted_store"
    by (simp_all add: db_available_def voters_def voted_store_tables)
  have f: "fails check_fails = (\<lambda>q. q = Q_hasVoted)"
    by (simp add: check_fails_def healthy_def)
  have l: "length v1 = 2" "v1 \<noteq> []" by (simp_all add: v1_def)
  have a: "addVote check_fails 2 v1 voted_store = (Inr True, ?w1)"
    using c h f l by (simp add: addVote_available counted_first)
  have "db_available check_fails ?w1" by (simp add: db_available_def)
  then have g: "getAllCandidates check_fails ?w1 =
      (Inr (counted 2 (candidates voted_store)), sent Q_getAllCandidates (?w1\<lparr>conn := True\<rparr>))"
    using f by (simp add: getAllCandidates_available)
  have n: "map c_votes (counted 2 (candidates voted_store)) = [1, 1, 0, 0, 0]"
    by (simp add: voted_store_eq counted_def seeded_store_eq seed_rows_def candidatesList_def
        empty_store_def)
  from a g l h n show ?thesis
    by (simp add: voting_vote_def voted_store_tables)
qed

text \<open>What does hold: a call whose existence read is answered by the store keeps the
  invariant, whatever else fails, and so does every sequence of such requests.\<close>

lemma addVote_keeps_one_vote:
  assumes "one_vote w" and "\<not> fails env Q_hasVoted"
  shows "one_vote (snd (addVote env c v w))"
proof (cases "db_available env w")
  case False
  with assms(1) show ?thesis by (simp add: addVote_unavailable)
next
  case True
  with assms show ?thesis
    by (simp add: addVote_available one_vote_def voters_def)
qed

lemma voting_vote_keeps_one_vote:
  assumes "one_vote w" and "\<not> fails env Q_hasVoted"
  shows "one_vote (snd (voting_vote env input w))"
proof -
  have "votes (snd (voting_vote env input w)) = votes w \<or>
      votes (snd (voting_vote env input w)) =
        votes (snd (addVote env (candidateId input) (voterIdentifier input) w))"
    by (cases "addVote env (candidateId input) (voterIdentifier input) w")
      (auto simp: voting_vote_def split: sum.splits prod.splits
        dest: arg_cong [where f = "\<lambda>p. votes (snd p)"])
  with assms addVote_keeps_one_vote [OF assms, of "candidateId input" "voterIdentifier input"]
  show ?thesis by (auto simp: one_vote_def)
qed

lemma vote_all_keeps_one_vote:
  "one_vote w \<Longrightarrow> list_all (\<lambda>(env, input). \<not> fails env Q_hasVoted) calls \<Longrightarrow>
   one_vote (snd (vote_all calls w))"
proof (induction calls arbitrary: w)
  case Nil
  then show ?case by simp
next
  case (Cons call calls)
  obtain env input where call: "call = (env, input)" by (cases call)
  obtain r w1 where v: "voting_vote env input w = (r, w1)" by (cases "voting_vote env input w")
  obtain rs w2 where vs: "vote_all calls w1 = (rs, w2)" by (cases "vote_all calls w1")
  from Cons.prems call have "\<not> fails env Q_hasVoted"
    "list_all (\<lambda>(env, input). \<not> fails env Q_hasVoted) calls"
    by simp_all
  with Cons.prems(1) v Cons.IH [of w1] vs call show ?case
    using voting_vote_keeps_one_vote [of w env input] by simp
qed

text \<open>
  C5 (write-path failure visibility) does not hold of the code. Without
  \<open>DATABASE_URL\<close>, \<open>getDb\<close> returns null; \<open>addVote\<close> then returns \<open>false\<close> instead of
  throwing, and the \<open>vote\<close> mutation, which does not look at the returned value, answers
  \<open>success: true\<close> with the empty candidate list that the degrading
  \<open>getAllCandidates\<close> gives it. Nothing was stored.
\<close>

theorem unavailable_store_answers_success:
  "fst (addVote no_database 1 v1 empty_store) = Inr False \<and>
   voting_vote no_database \<lparr>candidateId = 1, voterIdentifier = v1\<rparr> empty_store =
     (Inr \<lparr>success = True, result_candidates = []\<rparr>, empty_store)"
proof -
  have "\<not> db_available no_database empty_store"
    by (simp add: db_available_def no_database_def healthy_def empty_store_def)
  then show ?thesis
    by (simp add: voting_vote_def addVote_unavailable getAllCandidates_unavailable v1_def)
qed

text \<open>What does hold: with a handle, a failing insert is answered with an error.\<close>

lemma failed_insert_surfaces:
  assumes "db_available env w" and "fails env Q_insertVote" and "0 < c" and "v \<noteq> []"
  shows "isl (fst (voting_vote env \<lparr>candidateId = c, voterIdentifier = v\<rparr> w)) \<and>
         votes (snd (voting_vote env \<lparr>candidateId = c, voterIdentifier = v\<rparr> w)) = votes w"
  using assms by (simp add: voting_vote_def addVote_available thrown_def)

text \<open>
  C4 (unknown candidate rejection) does not hold of the code, by the defect shown for
  C5: without a handle \<open>addVote\<close> returns \<open>false\<close> and the mutation answers with success.
  The process is restarted without \<open>DATABASE_URL\<close> on the seeded database. No candidate
  has the key 9 and \<open>v1\<close> has not voted, yet the request to vote for candidate 9 is
  answered \<open>success: true\<close> with an empty candidate list.
\<close>

theorem unknown_candidate_answered_success:
  "9 \<notin> c_id ` set (candidates seeded_store) \<and> v1 \<notin> voters seeded_store \<and>
   voting_vote no_database \<lparr>candidateId = 9, voterIdentifier = v1\<rparr>
     (seeded_store\<lparr>conn := False\<rparr>) =
     (Inr \<lparr>success = True, result_candidates = []\<rparr>, seeded_store\<lparr>conn := False\<rparr>)"
proof -
  have "map c_id (candidates seeded_store) = [1, 2, 3, 4, 5]"
    by (simp add: seeded_store_eq seed_rows_healthy)
  then have h2: "9 \<notin> c_id ` set (candidates seeded_store)"
    by (simp flip: set_map)
  have h3: "v1 \<notin> voters seeded_store"
    by (simp add: voters_def seeded_store_eq empty_store_def)
  have "\<not> db_available no_database (seeded_store\<lparr>conn := False\<rparr>)"
    by (simp add: db_available_def no_database_def healthy_def)
  with h2 h3 show ?thesis
    by (simp add: voting_vote_def addVote_unavailable getAllCandidates_unavailable v1_def)
qed


text \<open>
  C9 (boundary validation) does not hold of \<open>voting.hasVoted\<close>: its schema is
  \<open>z.string()\<close> without \<open>min(1)\<close>, so the empty voter identifier is not rejected; the
  request reaches the store (the existence read is sent) and is answered \<open>false\<close>.
\<close>

theorem empty_identifier_reaches_store:
  "voting_hasVoted healthy [] empty_store =
     (Inr False, empty_store\<lparr>conn := True, queries := [Q_hasVoted]\<rparr>)"
proof -
  have "db_available healthy empty_store"
    by (simp add: db_available_def healthy_def)
  then show ?thesis
    by (simp add: voting_hasVoted_def hasVoted_available voters_def sent_def empty_store_def)
qed

text \<open>What \<open>voting.vote\<close> does validate: a non-positive candidate id or an empty voter
  identifier is answered with a validation error, and the request touches nothing.\<close>

lemma vote_input_validated:
  "\<not> 0 < c \<or> v = [] \<Longrightarrow>
   voting_vote env \<lparr>candidateId = c, voterIdentifier = v\<rparr> w = (Inl ValidationError, w)"
  by (auto simp: voting_vote_def)

end
